theory Spec2Isabelle
  imports
    Main
    "HOL-Library.Sublist"
    "HOL-Library.AList"
    "HOL-Library.Char_ord"
    "HOL-Library.List_Lexorder"
begin

section \<open>Values and exceptions\<close>

text \<open>
  The rich-text document and the media metadata are decoded JSON: Python dicts, lists,
  strings, numbers, booleans and \<^verbatim>\<open>None\<close>. The code probes them dynamically
  (\<^verbatim>\<open>.get\<close>, \<^verbatim>\<open>isinstance\<close>, subscripting), so they are kept untyped here.
  A dict is an association list in insertion order, read with \<open>map_of\<close>.
  Numbers only ever occur as "neither a string, a list nor a dict", so one integer
  constructor stands for them.
\<close>

datatype json =
    JNull
  | JBool bool
  | JNum int
  | JStr string
  | JList "json list"
  | JObj "(string \<times> json) list"

text \<open>
  The exceptions the code can raise. \<open>KeyError\<close> carries the missing key, as in Python.
  \<open>External\<close> stands for whatever a collaborator outside this file raises (network,
  authentication, formatting).
\<close>

datatype error =
    KeyError json
  | IndexError
  | TypeError
  | AttributeError
  | AssertionError
  | External string

text \<open>\<^verbatim>\<open>obj.get(key)\<close>: only a dict has the method; a missing key gives \<^verbatim>\<open>None\<close>.\<close>

fun py_get :: "json \<Rightarrow> string \<Rightarrow> error + json" where
  "py_get (JObj d) k = (case map_of d k of None \<Rightarrow> Inr JNull | Some v \<Rightarrow> Inr v)"
| "py_get _ k = Inl AttributeError"

text \<open>
  \<^verbatim>\<open>obj[key]\<close> for a string key: a dict raises \<^verbatim>\<open>KeyError(key)\<close> when the key is
  missing; a list or a string wants an integer index and every other value is not
  subscriptable, both \<^verbatim>\<open>TypeError\<close>.
\<close>

fun py_getitem :: "json \<Rightarrow> string \<Rightarrow> error + json" where
  "py_getitem (JObj d) k = (case map_of d k of None \<Rightarrow> Inl (KeyError (JStr k)) | Some v \<Rightarrow> Inr v)"
| "py_getitem _ k = Inl TypeError"

text \<open>\<^verbatim>\<open>xs[i]\<close> on a list, for a non-negative index.\<close>

definition list_getitem :: "'a list \<Rightarrow> nat \<Rightarrow> error + 'a" where
  "list_getitem xs i = (if i < length xs then Inr (xs ! i) else Inl IndexError)"

text \<open>
  \<^verbatim>\<open>for item in value\<close>: a list yields its elements, a dict its keys, a string is
  never iterated by the code (it is caught by \<^verbatim>\<open>isinstance\<close> before), and the
  remaining values are not iterable.
\<close>

fun py_iter :: "json \<Rightarrow> error + json list" where
  "py_iter (JList xs) = Inr xs"
| "py_iter (JObj d) = Inr (map (\<lambda>kv. JStr (fst kv)) d)"
| "py_iter (JStr s) = Inr (map (\<lambda>c. JStr [c]) s)"
| "py_iter _ = Inl TypeError"

section \<open>String operations\<close>

text \<open>
  \<^verbatim>\<open>s.split(sep)\<close>: the pieces between the leftmost non-overlapping occurrences of
  \<open>sep\<close>. \<open>cur\<close> is the piece being read. Python raises \<^verbatim>\<open>ValueError\<close> for an empty
  separator; both call sites pass a non-empty literal.
\<close>

function split_loop :: "string \<Rightarrow> string \<Rightarrow> string \<Rightarrow> string list" where
  "split_loop sep cur [] = [cur]"
| "split_loop sep cur (c # cs) =
     (if sep \<noteq> [] \<and> prefix sep (c # cs)
      then cur # split_loop sep [] (drop (length sep) (c # cs))
      else split_loop sep (cur @ [c]) cs)"
  by pat_completeness auto
termination
  by (relation "measure (\<lambda>(sep, cur, s). length s)") (auto simp: neq_Nil_conv)

definition str_split :: "string \<Rightarrow> string \<Rightarrow> string list" where
  "str_split sep s = split_loop sep [] s"

text \<open>\<^verbatim>\<open>re.split(r"[./]", url)\<close>: a cut at every dot and every slash.\<close>

fun re_split_loop :: "string \<Rightarrow> string \<Rightarrow> string list" where
  "re_split_loop cur [] = [cur]"
| "re_split_loop cur (c # cs) =
     (if c = CHR ''.'' \<or> c = CHR ''/''
      then cur # re_split_loop [] cs
      else re_split_loop (cur @ [c]) cs)"

definition re_split_dot_slash :: "string \<Rightarrow> string list" where
  "re_split_dot_slash url = re_split_loop [] url"

section \<open>The reconciler\<close>

definition MEDIA_TYPE_MAPPING :: "(string \<times> string) list" where
  "MEDIA_TYPE_MAPPING =
     [(''Image'', ''img''), (''RedditVideo'', ''video''), (''AnimatedImage'', ''gif'')]"

text \<open>
  \<^verbatim>\<open>MEDIA_TYPE_MAPPING[k]\<close>: a list or a dict is unhashable (\<^verbatim>\<open>TypeError\<close>), any
  other value that is not one of the three keys raises \<^verbatim>\<open>KeyError(k)\<close>.
\<close>

fun media_type_lookup :: "json \<Rightarrow> error + string" where
  "media_type_lookup (JStr k) =
     (case map_of MEDIA_TYPE_MAPPING k of None \<Rightarrow> Inl (KeyError (JStr k)) | Some v \<Rightarrow> Inr v)"
| "media_type_lookup (JList xs) = Inl TypeError"
| "media_type_lookup (JObj d) = Inl TypeError"
| "media_type_lookup k = Inl (KeyError k)"

text \<open>
  Lines 26 to 28: the loop that fills \<^verbatim>\<open>parsed_media_types\<close>, a dict from media id to
  canonical kind, here an association list updated in place.
\<close>

fun parse_media_types ::
  "(string \<times> json) list \<Rightarrow> (string \<times> string) list \<Rightarrow> error + (string \<times> string) list" where
  "parse_media_types [] parsed = Inr parsed"
| "parse_media_types ((media_id, value) # rest) parsed =
     (case py_getitem value ''e'' of
        Inl err \<Rightarrow> Inl err
      | Inr k \<Rightarrow>
          (case media_type_lookup k of
             Inl err \<Rightarrow> Inl err
           | Inr kind \<Rightarrow> parse_media_types rest (AList.update media_id kind parsed)))"

text \<open>
  Line 42: \<^verbatim>\<open>item["u"].split("https://")[1].split("?")[0]\<close>, for a string \<open>u\<close>.
\<close>

definition strip_url :: "string \<Rightarrow> error + string" where
  "strip_url u =
     (case list_getitem (str_split ''https://'' u) 1 of
        Inl err \<Rightarrow> Inl err
      | Inr rest \<Rightarrow> list_getitem (str_split ''?'' rest) 0)"

text \<open>
  Lines 47 to 54: the element that replaces the block, with the caption when the display
  text differs from the URL. \<open>u\<close> is the value of \<^verbatim>\<open>item["u"]\<close>.
\<close>

definition correct_element ::
  "(string \<times> string) list \<Rightarrow> string \<Rightarrow> json \<Rightarrow> json \<Rightarrow> error + json" where
  "correct_element parsed matched_id item u =
     (case map_of parsed matched_id of
        None \<Rightarrow> Inl (KeyError (JStr matched_id))
      | Some kind \<Rightarrow>
          (case py_get item ''t'' of
             Inl err \<Rightarrow> Inl err
           | Inr t \<Rightarrow>
               if t \<noteq> u
               then (case py_getitem item ''t'' of
                       Inl err \<Rightarrow> Inl err
                     | Inr caption \<Rightarrow>
                         Inr (JObj [(''e'', JStr kind), (''id'', JStr matched_id), (''c'', caption)]))
               else Inr (JObj [(''e'', JStr kind), (''id'', JStr matched_id)])))"

text \<open>
  Lines 39 to 54, the body of the loop over the items up to the assignment: \<open>Inr None\<close>
  when the item is no link or no identifier matches, \<open>Inr (Some el)\<close> when line 55 is to
  store \<open>el\<close>. \<^verbatim>\<open>set.pop()\<close> returns an arbitrary member of the set; which one is not
  fixed by the language, so the choice is the parameter \<open>pop\<close>.
\<close>

definition link_replacement ::
  "(string set \<Rightarrow> string) \<Rightarrow> (string \<times> string) list \<Rightarrow> json \<Rightarrow> error + json option" where
  "link_replacement pop parsed item =
     (case py_get item ''e'' of
        Inl err \<Rightarrow> Inl err
      | Inr tag \<Rightarrow>
          if tag = JStr ''link''
          then (case py_getitem item ''u'' of
                  Inl err \<Rightarrow> Inl err
                | Inr (JStr u) \<Rightarrow>
                    (case strip_url u of
                       Inl err \<Rightarrow> Inl err
                     | Inr url \<Rightarrow>
                         let matched_id = set (map fst parsed) \<inter> set (re_split_dot_slash url)
                         in if matched_id \<noteq> {}
                            then (case correct_element parsed (pop matched_id) item (JStr u) of
                                    Inl err \<Rightarrow> Inl err
                                  | Inr el \<Rightarrow> Inr (Some el))
                            else Inr None)
                | Inr _ \<Rightarrow> Inl AttributeError)
          else Inr None)"

text \<open>
  Lines 38 to 55: the loop over the items of one block. The document is the state; an
  exception leaves it as the assignments made so far have left it.
\<close>

fun items_loop ::
  "(string set \<Rightarrow> string) \<Rightarrow> (string \<times> string) list \<Rightarrow> nat \<Rightarrow> json list \<Rightarrow> json list
     \<Rightarrow> error option \<times> json list" where
  "items_loop pop parsed index [] document = (None, document)"
| "items_loop pop parsed index (item # items) document =
     (case link_replacement pop parsed item of
        Inl err \<Rightarrow> (Some err, document)
      | Inr None \<Rightarrow> items_loop pop parsed index items document
      | Inr (Some el) \<Rightarrow>
          if index < length document
          then items_loop pop parsed index items (document[index := el])
          else (Some IndexError, document))"

text \<open>Lines 31 to 55: the body of the loop over the blocks. Assertions are enabled.\<close>

definition process_element ::
  "(string set \<Rightarrow> string) \<Rightarrow> (string \<times> string) list \<Rightarrow> nat \<Rightarrow> json \<Rightarrow> json list
     \<Rightarrow> error option \<times> json list" where
  "process_element pop parsed index element document =
     (case py_get element ''c'' of
        Inl err \<Rightarrow> (Some err, document)
      | Inr (JStr s) \<Rightarrow>
          (case py_get element ''e'' of
             Inl err \<Rightarrow> (Some err, document)
           | Inr kind \<Rightarrow>
               if kind \<in> set [JStr ''gif'', JStr ''img'', JStr ''video'']
               then (None, document)
               else (Some AssertionError, document))
      | Inr element_items \<Rightarrow>
          (case py_iter element_items of
             Inl err \<Rightarrow> (Some err, document)
           | Inr items \<Rightarrow> items_loop pop parsed index items document))"

text \<open>
  Line 30: the loop over \<^verbatim>\<open>enumerate(richtext_json["document"][:])\<close>. \<open>snapshot\<close> is
  what is left of the copy, \<open>document\<close> the list being updated.
\<close>

fun elements_loop ::
  "(string set \<Rightarrow> string) \<Rightarrow> (string \<times> string) list \<Rightarrow> nat \<Rightarrow> json list \<Rightarrow> json list
     \<Rightarrow> error option \<times> json list" where
  "elements_loop pop parsed index [] document = (None, document)"
| "elements_loop pop parsed index (element # snapshot) document =
     (case process_element pop parsed index element document of
        (Some err, document') \<Rightarrow> (Some err, document')
      | (None, document') \<Rightarrow> elements_loop pop parsed (Suc index) snapshot document')"

text \<open>
  The object being edited: \<open>media_metadata\<close> is \<open>None\<close> when the attribute does not
  exist (\<^verbatim>\<open>hasattr\<close> is false). \<open>validate_on_submit\<close> is read from the client the object
  belongs to.
\<close>

record editable =
  fullname :: string
  validate_on_submit :: bool
  media_metadata :: "(string \<times> json) list option"

text \<open>
  \<^verbatim>\<open>EditableMixin._replace_richtext_links\<close>. The state is the list
  \<^verbatim>\<open>richtext_json["document"]\<close>, the only part of the argument that is read or
  written. The result is the exception raised, if any, and the document as the call
  leaves it.
\<close>

definition replace_richtext_links ::
  "(string set \<Rightarrow> string) \<Rightarrow> editable \<Rightarrow> json list \<Rightarrow> error option \<times> json list" where
  "replace_richtext_links pop self document =
     (case media_metadata self of
        None \<Rightarrow> (None, document)
      | Some metadata \<Rightarrow>
          (case parse_media_types metadata [] of
             Inl err \<Rightarrow> (Some err, document)
           | Inr parsed \<Rightarrow> elements_loop pop parsed 0 document document))"

section \<open>The edit operation\<close>

text \<open>
  The requests \<^verbatim>\<open>EditableMixin.edit\<close> sends through its collaborators, in the order
  they are issued: the upload of one inline medium, the conversion of the body to rich
  text, and the submission of the edit (\<^verbatim>\<open>self._reddit.post(API_PATH["edit"], ...)\<close>).
\<close>

datatype request =
    UploadInlineMedia string
  | ConvertToFancypants string
  | PostEdit "(string \<times> json) list"

text \<open>
  The collaborators of \<^verbatim>\<open>edit\<close>, which live outside this file, are parameters:
  whether \<^verbatim>\<open>INLINE_MEDIA_PATTERN.search(body)\<close> finds a match, the upload of a medium
  (\<^verbatim>\<open>self.subreddit._upload_inline_media\<close>), the substitution of the uploads into the body (\<^verbatim>\<open>body.format\<close>), the
  rich-text converter (\<^verbatim>\<open>self.subreddit._convert_to_fancypants\<close>, whose result is
  read here as its \<^verbatim>\<open>"document"\<close> list), \<^verbatim>\<open>json.dumps\<close> and the edit endpoint.
  Each of them may raise.
\<close>

record collaborators =
  pattern_search :: "string \<Rightarrow> bool"
  upload_inline_media :: "string \<Rightarrow> error + string"
  format_body :: "string \<Rightarrow> (string \<times> string) list \<Rightarrow> error + string"
  convert_to_fancypants :: "string \<Rightarrow> error + json list"
  dumps :: "json list \<Rightarrow> string"
  post_edit :: "(string \<times> json) list \<Rightarrow> error + json"

text \<open>
  Lines 116 to 119: the dict comprehension that uploads every inline medium, in the order
  of the dict. \<open>log\<close> is the list of requests issued so far.
\<close>

fun upload_all ::
  "collaborators \<Rightarrow> (string \<times> string) list \<Rightarrow> request list
     \<Rightarrow> request list \<times> (error + (string \<times> string) list)" where
  "upload_all env [] log = (log, Inr [])"
| "upload_all env ((placeholder, media) # rest) log =
     (case upload_inline_media env media of
        Inl err \<Rightarrow> (log @ [UploadInlineMedia media], Inl err)
      | Inr uploaded \<Rightarrow>
          (case upload_all env rest (log @ [UploadInlineMedia media]) of
             (log', Inl err) \<Rightarrow> (log', Inl err)
           | (log', Inr uploads) \<Rightarrow> (log', Inr ((placeholder, uploaded) # uploads))))"

text \<open>
  Lines 111 to 121: the body to convert and the flag \<^verbatim>\<open>is_richtext_json\<close>.
  \<^verbatim>\<open>inline_media\<close> is \<open>None\<close> or a dict; an empty dict is falsy.
\<close>

definition prepare_body ::
  "collaborators \<Rightarrow> string \<Rightarrow> (string \<times> string) list option
     \<Rightarrow> request list \<times> (error + string \<times> bool)" where
  "prepare_body env body inline_media =
     (let is_richtext_json = pattern_search env body
      in case inline_media of
           None \<Rightarrow> ([], Inr (body, is_richtext_json))
         | Some [] \<Rightarrow> ([], Inr (body, is_richtext_json))
         | Some media \<Rightarrow>
             (case upload_all env media [] of
                (log, Inl err) \<Rightarrow> (log, Inl err)
              | (log, Inr uploads) \<Rightarrow>
                  (case format_body env body uploads of
                     Inl err \<Rightarrow> (log, Inl err)
                   | Inr body' \<Rightarrow> (log, Inr (body', True)))))"

text \<open>
  \<^verbatim>\<open>EditableMixin.edit\<close> up to and including the submission on line 129. The result
  is the list of requests issued and either the exception raised or the response of the
  edit endpoint. Lines 130 to 144, which copy the response into the object, issue no
  request and are not part of the model.
\<close>

definition edit ::
  "(string set \<Rightarrow> string) \<Rightarrow> collaborators \<Rightarrow> editable \<Rightarrow> string \<Rightarrow> bool
     \<Rightarrow> (string \<times> string) list option \<Rightarrow> request list \<times> (error + json)" where
  "edit pop env self body preserve_inline_media inline_media =
     (let data = [(''thing_id'', JStr (fullname self)),
                  (''validate_on_submit'', JBool (validate_on_submit self))]
      in case prepare_body env body inline_media of
           (log, Inl err) \<Rightarrow> (log, Inl err)
         | (log, Inr (body', is_richtext_json)) \<Rightarrow>
             if is_richtext_json
             then (case convert_to_fancypants env body' of
                     Inl err \<Rightarrow> (log @ [ConvertToFancypants body'], Inl err)
                   | Inr document \<Rightarrow>
                       (case (if preserve_inline_media
                              then replace_richtext_links pop self document
                              else (None, document)) of
                          (Some err, document') \<Rightarrow> (log @ [ConvertToFancypants body'], Inl err)
                        | (None, document') \<Rightarrow>
                            (let data' = AList.update ''richtext_json''
                                           (JStr (dumps env document')) data
                             in (log @ [ConvertToFancypants body', PostEdit data'],
                                 post_edit env data'))))
             else (let data' = AList.update ''text'' (JStr body') data
                   in (log @ [PostEdit data'], post_edit env data')))"

section \<open>Notions used in the statements\<close>

text \<open>
  \<^verbatim>\<open>set.pop()\<close> returns a member of the set it is called on; nothing more is assumed
  of the choice.
\<close>

definition pop_ok :: "(string set \<Rightarrow> string) \<Rightarrow> bool" where
  "pop_ok pop \<longleftrightarrow> (\<forall>S. finite S \<and> S \<noteq> {} \<longrightarrow> pop S \<in> S)"

text \<open>The inline items of a block: its content when that is a list, none otherwise.\<close>

definition element_items :: "json \<Rightarrow> json list" where
  "element_items element =
     (case py_get element ''c'' of Inr (JList items) \<Rightarrow> items | _ \<Rightarrow> [])"

definition is_link :: "json \<Rightarrow> bool" where
  "is_link item \<longleftrightarrow> py_get item ''e'' = Inr (JStr ''link'')"

text \<open>
  The tokens of a link item's URL after scheme removal, query-string stripping and the
  split on dots and slashes; none when the item has no string URL or the URL has no
  scheme to remove.
\<close>

definition link_tokens :: "json \<Rightarrow> string list" where
  "link_tokens item =
     (case py_getitem item ''u'' of
        Inr (JStr u) \<Rightarrow> (case strip_url u of Inr url \<Rightarrow> re_split_dot_slash url | Inl err \<Rightarrow> [])
      | _ \<Rightarrow> [])"

text \<open>The kind field of a media descriptor, when the descriptor is a dict that has one and it is a string.\<close>

definition descriptor_kind :: "json \<Rightarrow> string option" where
  "descriptor_kind value =
     (case py_getitem value ''e'' of Inr (JStr k) \<Rightarrow> Some k | _ \<Rightarrow> None)"

definition known_kinds :: "string set" where
  "known_kinds = {''Image'', ''RedditVideo'', ''AnimatedImage''}"


text \<open>
  \<open>replaces pop parsed element el\<close>: some item of the block \<open>element\<close> makes line 55
  store \<open>el\<close>.
\<close>

definition replaces ::
  "(string set \<Rightarrow> string) \<Rightarrow> (string \<times> string) list \<Rightarrow> json \<Rightarrow> json \<Rightarrow> bool" where
  "replaces pop parsed element el \<longleftrightarrow>
     (\<exists>d items item. element = JObj d \<and> map_of d ''c'' = Some (JList items) \<and>
        item \<in> set items \<and> link_replacement pop parsed item = Inr (Some el))"

section \<open>Auxiliary lemmas\<close>

subsection \<open>Splitting strings\<close>

text \<open>What the two splits give on a string without the separator, and on the URL of an uploaded medium.\<close>

lemma split_loop_no_sep:
  "\<not> sublist sep s \<Longrightarrow> split_loop sep cur s = [cur @ s]"
proof (induction s arbitrary: cur)
  case Nil
  then show ?case by simp
next
  case (Cons c cs)
  from Cons.prems have np: "\<not> prefix sep (c # cs)" and ns: "\<not> sublist sep cs"
    by (auto simp: sublist_Cons_right)
  from Cons.IH [OF ns] np show ?case by simp
qed

lemma split_loop_no_char:
  "x \<in> set sep \<Longrightarrow> x \<notin> set s \<Longrightarrow> split_loop sep cur s = [cur @ s]"
proof (rule split_loop_no_sep)
  assume a: "x \<in> set sep" "x \<notin> set s"
  show "\<not> sublist sep s"
  proof
    assume "sublist sep s"
    then have "set sep \<subseteq> set s" by (auto simp: sublist_def)
    with a show False by auto
  qed
qed

lemma split_loop_first:
  "x \<notin> set a \<Longrightarrow> split_loop [x] cur (a @ x # b) = (cur @ a) # split_loop [x] [] b"
  by (induction a arbitrary: cur) auto

lemma re_split_loop_plain:
  "CHR ''.'' \<notin> set s \<Longrightarrow> CHR ''/'' \<notin> set s \<Longrightarrow> re_split_loop cur s = [cur @ s]"
  by (induction s arbitrary: cur) auto

lemma strip_url_media:
  assumes "CHR ''/'' \<notin> set mid" "CHR ''?'' \<notin> set mid"
  shows "strip_url (''https://i.redd.it/'' @ mid @ ''?amp=1'') = Inr (''i.redd.it/'' @ mid)"
proof -
  have "CHR ''/'' \<notin> set (mid @ ''?amp=1'')" using assms(1) by simp
  then have tail: "split_loop ''https://'' cur (mid @ ''?amp=1'') = [cur @ mid @ ''?amp=1'']" for cur
    by (intro split_loop_no_char [of "CHR ''/''", THEN trans]) simp_all
  have first: "str_split ''https://'' (''https://i.redd.it/'' @ mid @ ''?amp=1'')
      = [[], ''i.redd.it/'' @ mid @ ''?amp=1'']"
    by (simp add: str_split_def tail)
  have "CHR ''?'' \<notin> set (''i.redd.it/'' @ mid)" using assms(2) by simp
  from split_loop_first [OF this, of "[]" "''amp=1''"]
  have second: "str_split ''?'' (''i.redd.it/'' @ mid @ ''?amp=1'')
      = (''i.redd.it/'' @ mid) # split_loop ''?'' [] ''amp=1''"
    by (simp add: str_split_def)
  show ?thesis
    using first second by (simp add: strip_url_def list_getitem_def)
qed

lemma tokens_media:
  assumes "CHR ''.'' \<notin> set mid" "CHR ''/'' \<notin> set mid"
  shows "re_split_dot_slash (''i.redd.it/'' @ mid) = [''i'', ''redd'', ''it'', mid]"
  by (simp add: re_split_dot_slash_def re_split_loop_plain [OF assms])

subsection \<open>The derived mapping\<close>

text \<open>The keys and the values of \<^verbatim>\<open>parsed_media_types\<close>, and the failure on an unknown kind.\<close>

lemma parse_media_types_keys:
  "parse_media_types mm acc = Inr parsed \<Longrightarrow>
   fst ` set parsed = fst ` set mm \<union> fst ` set acc"
proof (induction mm arbitrary: acc)
  case Nil
  then show ?case by simp
next
  case (Cons kv mm)
  obtain media_id v where kv: "kv = (media_id, v)" by (cases kv)
  from Cons.prems kv obtain k kind where
    "parse_media_types mm (AList.update media_id kind acc) = Inr parsed"
    by (auto split: sum.splits)
  from Cons.IH [OF this] kv show ?case by (auto simp: dom_update)
qed

lemma parse_media_types_unknown:
  assumes "\<forall>(media_id, value) \<in> set mm. descriptor_kind value \<noteq> None"
    and "\<exists>(media_id, value) \<in> set mm. \<exists>k. descriptor_kind value = Some k \<and> k \<notin> known_kinds"
  shows "\<exists>k. k \<notin> known_kinds \<and> parse_media_types mm acc = Inl (KeyError (JStr k))"
  using assms
proof (induction mm arbitrary: acc)
  case Nil
  then show ?case by simp
next
  case (Cons kv mm)
  obtain media_id v where kv: "kv = (media_id, v)" by (cases kv)
  from Cons.prems(1) kv obtain k where k: "py_getitem v ''e'' = Inr (JStr k)"
    by (auto simp: descriptor_kind_def split: sum.splits json.splits)
  show ?case
  proof (cases "k \<in> known_kinds")
    case False
    then have "media_type_lookup (JStr k) = Inl (KeyError (JStr k))"
      by (auto simp: known_kinds_def MEDIA_TYPE_MAPPING_def)
    with kv k False show ?thesis by auto
  next
    case True
    then obtain kind where kind: "media_type_lookup (JStr k) = Inr kind"
      by (auto simp: known_kinds_def MEDIA_TYPE_MAPPING_def)
    from True k kv Cons.prems(2)
    have ex: "\<exists>(media_id, value) \<in> set mm. \<exists>k. descriptor_kind value = Some k \<and> k \<notin> known_kinds"
      by (auto simp: descriptor_kind_def)
    from Cons.prems(1) have all: "\<forall>(media_id, value) \<in> set mm. descriptor_kind value \<noteq> None"
      by simp
    from Cons.IH [OF all ex, of "AList.update media_id kind acc"] kv k kind
    show ?thesis by simp
  qed
qed

lemma media_type_lookup_InrD:
  "media_type_lookup k = Inr kind \<Longrightarrow> \<exists>s. k = JStr s \<and> s \<in> known_kinds"
  by (cases k) (auto simp: MEDIA_TYPE_MAPPING_def known_kinds_def split: if_splits)

lemma parse_media_types_fails:
  assumes "\<exists>(media_id, value) \<in> set mm. descriptor_kind value \<notin> Some ` known_kinds"
  shows "\<exists>err. parse_media_types mm acc = Inl err"
  using assms
proof (induction mm arbitrary: acc)
  case Nil
  then show ?case by simp
next
  case (Cons kv mm)
  obtain media_id v where kv: "kv = (media_id, v)" by (cases kv)
  show ?case
  proof (cases "py_getitem v ''e''")
    case (Inl err)
    with kv show ?thesis by simp
  next
    case (Inr k)
    show ?thesis
    proof (cases "media_type_lookup k")
      case (Inl err)
      with Inr kv show ?thesis by simp
    next
      case (Inr kind)
      from media_type_lookup_InrD [OF this] obtain s where "k = JStr s" "s \<in> known_kinds"
        by blast
      with \<open>py_getitem v ''e'' = Inr k\<close> have "descriptor_kind v \<in> Some ` known_kinds"
        by (simp add: descriptor_kind_def)
      with Cons.prems kv
      have "\<exists>(media_id, value) \<in> set mm. descriptor_kind value \<notin> Some ` known_kinds"
        by auto
      from Cons.IH [OF this, of "AList.update media_id kind acc"] kv Inr
        \<open>py_getitem v ''e'' = Inr k\<close>
      show ?thesis by simp
    qed
  qed
qed

lemma parse_media_types_other:
  "parse_media_types mm acc = Inr parsed \<Longrightarrow> mid \<notin> fst ` set mm \<Longrightarrow>
   map_of parsed mid = map_of acc mid"
proof (induction mm arbitrary: acc)
  case Nil
  then show ?case by simp
next
  case (Cons kv mm)
  obtain media_id v where kv: "kv = (media_id, v)" by (cases kv)
  from Cons.prems(1) kv obtain kind where
    p: "parse_media_types mm (AList.update media_id kind acc) = Inr parsed"
    by (auto split: sum.splits)
  from Cons.prems(2) kv have ne: "mid \<noteq> media_id" and notin: "mid \<notin> fst ` set mm" by auto
  from Cons.IH [OF p notin] ne show ?case by (simp add: update_conv')
qed

lemma parse_media_types_lookup:
  assumes "parse_media_types mm acc = Inr parsed"
    and "distinct (map fst mm)"
    and "(mid, value) \<in> set mm"
    and "descriptor_kind value = Some k"
  shows "map_of parsed mid = map_of MEDIA_TYPE_MAPPING k \<and> map_of parsed mid \<noteq> None"
  using assms(1-3)
proof (induction mm arbitrary: acc)
  case Nil
  then show ?case by simp
next
  case (Cons kv mm)
  obtain media_id v where kv: "kv = (media_id, v)" by (cases kv)
  from Cons.prems(1) kv obtain k' kind where
    k': "py_getitem v ''e'' = Inr k'" and look: "media_type_lookup k' = Inr kind"
    and p: "parse_media_types mm (AList.update media_id kind acc) = Inr parsed"
    by (auto split: sum.splits)
  show ?case
  proof (cases "(mid, value) = kv")
    case True
    with kv k' assms(4) have "k' = JStr k"
      by (auto simp: descriptor_kind_def split: json.splits)
    with look have tab: "map_of MEDIA_TYPE_MAPPING k = Some kind"
      by (auto split: option.splits)
    from True kv Cons.prems(2) have "mid \<notin> fst ` set mm" by auto
    from parse_media_types_other [OF p this] True kv tab show ?thesis
      by (simp add: update_conv')
  next
    case False
    with Cons.prems(3) have mem: "(mid, value) \<in> set mm" by auto
    from Cons.prems(2) have "distinct (map fst mm)" by simp
    from Cons.IH [OF p this mem] show ?thesis .
  qed
qed

lemma parse_media_types_kind:
  assumes "parse_media_types mm acc = Inr parsed"
    and "distinct (map fst mm)"
    and "(mid, value) \<in> set mm"
    and "descriptor_kind value = Some k"
  obtains kind where "map_of MEDIA_TYPE_MAPPING k = Some kind" "map_of parsed mid = Some kind"
proof -
  from parse_media_types_lookup [OF assms]
  have eq: "map_of parsed mid = map_of MEDIA_TYPE_MAPPING k"
    and ne: "map_of parsed mid \<noteq> None" by blast+
  from ne obtain kind where kind: "map_of parsed mid = Some kind" by blast
  from eq kind have "map_of MEDIA_TYPE_MAPPING k = Some kind" by (rule subst)
  with kind that show thesis by blast
qed

subsection \<open>One item\<close>

text \<open>When the body of the item loop asks for a replacement, raises, or does neither.\<close>

lemma link_replacement_JStr [simp]: "link_replacement pop parsed (JStr k) = Inl AttributeError"
  by (simp add: link_replacement_def)

lemma link_replacement_SomeD:
  assumes "link_replacement pop parsed item = Inr (Some el)"
  shows "is_link item \<and> set (map fst parsed) \<inter> set (link_tokens item) \<noteq> {} \<and>
    (\<exists>kind. el = JObj [(''e'', JStr kind),
                        (''id'', JStr (pop (set (map fst parsed) \<inter> set (link_tokens item))))] \<or>
             (\<exists>caption. el = JObj [(''e'', JStr kind),
                        (''id'', JStr (pop (set (map fst parsed) \<inter> set (link_tokens item)))),
                        (''c'', caption)]))"
proof (cases item)
  case (JObj f)
  from assms JObj have tag: "map_of f ''e'' = Some (JStr ''link'')"
    by (auto simp: link_replacement_def split: option.splits if_splits)
  with assms JObj obtain u where u: "map_of f ''u'' = Some (JStr u)"
    by (auto simp: link_replacement_def split: option.splits json.splits)
  with assms JObj tag obtain url where url: "strip_url u = Inr url"
    by (auto simp: link_replacement_def split: sum.splits)
  have tok: "link_tokens item = re_split_dot_slash url"
    using JObj u url by (simp add: link_tokens_def)
  let ?m = "set (map fst parsed) \<inter> set (re_split_dot_slash url)"
  from assms JObj tag u url have ne: "?m \<noteq> {}"
    by (auto simp: link_replacement_def Let_def split: if_splits)
  with assms JObj tag u url have ce: "correct_element parsed (pop ?m) item (JStr u) = Inr el"
    by (auto simp: link_replacement_def Let_def split: sum.splits)
  then have "\<exists>kind. el = JObj [(''e'', JStr kind), (''id'', JStr (pop ?m))] \<or>
      (\<exists>caption. el = JObj [(''e'', JStr kind), (''id'', JStr (pop ?m)), (''c'', caption)])"
    by (auto simp: correct_element_def split: option.splits sum.splits if_splits)
  with tag ne JObj show ?thesis unfolding tok by (simp add: is_link_def)
qed (use assms in \<open>simp_all add: link_replacement_def\<close>)

lemma link_replacement_no_scheme:
  assumes "is_link item" "py_getitem item ''u'' = Inr (JStr u)" "\<not> sublist ''https://'' u"
  shows "link_replacement pop parsed item = Inl IndexError"
proof -
  from assms(3) have "str_split ''https://'' u = [u]"
    by (simp add: str_split_def split_loop_no_sep)
  then have "strip_url u = Inl IndexError"
    by (simp add: strip_url_def list_getitem_def)
  with assms(1,2) show ?thesis
    by (simp add: link_replacement_def is_link_def)
qed

lemma link_replacement_no_match:
  assumes "item = JObj f"
    and "is_link item \<longrightarrow> (\<exists>u url. py_getitem item ''u'' = Inr (JStr u) \<and> strip_url u = Inr url \<and>
           set (re_split_dot_slash url) \<inter> set (map fst parsed) = {})"
  shows "link_replacement pop parsed item = Inr None"
proof (cases "is_link item")
  case False
  with assms(1) show ?thesis
    by (auto simp: link_replacement_def is_link_def split: option.splits)
next
  case True
  with assms(2) obtain u url where u: "py_getitem item ''u'' = Inr (JStr u)"
    "strip_url u = Inr url" "set (re_split_dot_slash url) \<inter> set (map fst parsed) = {}"
    by blast
  from u(3) have "set (map fst parsed) \<inter> set (re_split_dot_slash url) = {}" by blast
  with True u(1,2) show ?thesis
    by (simp add: link_replacement_def is_link_def)
qed

lemma pop_ok_Min: "pop_ok Min"
  by (simp add: pop_ok_def)

subsection \<open>The loop over the items\<close>

text \<open>The loop writes at its own index only, and what it writes comes from one of its items.\<close>

lemma items_loop_Cons_Inl:
  "link_replacement pop parsed item = Inl err \<Longrightarrow>
   items_loop pop parsed index (item # items) document = (Some err, document)"
  by simp

lemma items_loop_Cons_None:
  "link_replacement pop parsed item = Inr None \<Longrightarrow>
   items_loop pop parsed index (item # items) document = items_loop pop parsed index items document"
  by simp

lemma items_loop_Cons_Some:
  "link_replacement pop parsed item = Inr (Some el) \<Longrightarrow>
   items_loop pop parsed index (item # items) document =
     (if index < length document then items_loop pop parsed index items (document[index := el])
      else (Some IndexError, document))"
  by simp

lemmas items_loop_Cons = items_loop_Cons_Inl items_loop_Cons_None items_loop_Cons_Some

declare items_loop.simps(2) [simp del]

lemma items_loop_result:
  "snd (items_loop pop parsed index items document) = document \<or>
   (\<exists>item el. item \<in> set items \<and> link_replacement pop parsed item = Inr (Some el) \<and>
      index < length document \<and>
      snd (items_loop pop parsed index items document) = document[index := el])"
proof (induction items arbitrary: document)
  case Nil
  then show ?case by simp
next
  case (Cons item items)
  show ?case
  proof (cases "link_replacement pop parsed item")
    case (Inl err)
    then show ?thesis by (simp add: items_loop_Cons)
  next
    case (Inr r)
    show ?thesis
    proof (cases r)
      case None
      with Inr have eq: "items_loop pop parsed index (item # items) document
          = items_loop pop parsed index items document"
        by (simp add: items_loop_Cons)
      from Cons.IH [of document] show ?thesis unfolding eq by auto
    next
      case (Some el)
      show ?thesis
      proof (cases "index < length document")
        case True
        with Inr Some have eq: "items_loop pop parsed index (item # items) document
          = items_loop pop parsed index items (document[index := el])"
          by (simp add: items_loop_Cons)
        from Cons.IH [of "document[index := el]"] show ?thesis
        proof
          assume "snd (items_loop pop parsed index items (document[index := el])) = document[index := el]"
          with True Inr Some show ?thesis unfolding eq by auto
        next
          assume "\<exists>item el'. item \<in> set items \<and> link_replacement pop parsed item = Inr (Some el') \<and>
            index < length (document[index := el]) \<and>
            snd (items_loop pop parsed index items (document[index := el])) = document[index := el, index := el']"
          then obtain it el' where "it \<in> set items" "link_replacement pop parsed it = Inr (Some el')"
            "snd (items_loop pop parsed index items (document[index := el])) = document[index := el']"
            by auto
          with True show ?thesis unfolding eq by auto
        qed
      next
        case False
        with Inr Some show ?thesis by (simp add: items_loop_Cons)
      qed
    qed
  qed
qed

lemma items_loop_fst_indep:
  "index < length d \<Longrightarrow> index < length d' \<Longrightarrow>
   fst (items_loop pop parsed index items d) = fst (items_loop pop parsed index items d')"
proof (induction items arbitrary: d d')
  case Nil
  then show ?case by simp
next
  case (Cons item items)
  show ?case
  proof (cases "link_replacement pop parsed item")
    case (Inl err)
    then show ?thesis by (simp add: items_loop_Cons)
  next
    case (Inr r)
    show ?thesis
    proof (cases r)
      case None
      with Inr Cons.IH [OF Cons.prems] show ?thesis by (simp add: items_loop_Cons)
    next
      case (Some el)
      with Inr Cons.prems Cons.IH [of "d[index := el]" "d'[index := el]"] show ?thesis
        by (simp add: items_loop_Cons)
    qed
  qed
qed

lemma items_loop_error:
  "item \<in> set items \<Longrightarrow> link_replacement pop parsed item = Inl err \<Longrightarrow>
   fst (items_loop pop parsed index items document) \<noteq> None"
proof (induction items arbitrary: document)
  case Nil
  then show ?case by simp
next
  case (Cons a items)
  show ?case
  proof (cases "link_replacement pop parsed a")
    case (Inl e)
    then show ?thesis by (simp add: items_loop_Cons)
  next
    case (Inr r)
    with Cons.prems have mem: "item \<in> set items" by auto
    show ?thesis
    proof (cases r)
      case None
      with Inr Cons.IH [OF mem Cons.prems(2)] show ?thesis by (simp add: items_loop_Cons)
    next
      case (Some el)
      with Inr Cons.IH [OF mem Cons.prems(2)] show ?thesis by (simp add: items_loop_Cons)
    qed
  qed
qed

lemma items_loop_keys:
  "items_loop pop parsed index (map (\<lambda>kv. JStr (fst kv)) d) document =
     (if d = [] then (None, document) else (Some AttributeError, document))"
  by (cases d) (simp_all add: items_loop_Cons)

lemma items_loop_all_None:
  "\<forall>item \<in> set items. link_replacement pop parsed item = Inr None \<Longrightarrow>
   items_loop pop parsed index items document = (None, document)"
  by (induction items) (simp_all add: items_loop_Cons)

subsection \<open>One block\<close>

text \<open>The same for the body of the block loop.\<close>

lemma replaces_element_items:
  "replaces pop parsed element el \<Longrightarrow>
   \<exists>item \<in> set (element_items element). link_replacement pop parsed item = Inr (Some el)"
  by (auto simp: replaces_def element_items_def)

lemma element_itemsD:
  "item \<in> set (element_items element) \<Longrightarrow>
   \<exists>d items. element = JObj d \<and> map_of d ''c'' = Some (JList items) \<and> item \<in> set items"
  by (cases element)
     (auto simp: element_items_def split: option.splits json.splits)


lemma process_element_items:
  "element = JObj d \<Longrightarrow> map_of d ''c'' = Some (JList items) \<Longrightarrow>
   process_element pop parsed index element document = items_loop pop parsed index items document"
  by (simp add: process_element_def)


lemma process_element_result:
  "snd (process_element pop parsed index element document) = document \<or>
   (\<exists>el. replaces pop parsed element el \<and> index < length document \<and>
      snd (process_element pop parsed index element document) = document[index := el])"
proof (cases element)
  case (JObj d)
  show ?thesis
  proof (cases "map_of d ''c''")
    case None
    with JObj show ?thesis by (simp add: process_element_def)
  next
    case (Some c)
    show ?thesis
    proof (cases c)
      case (JList items)
      with JObj Some have eq: "process_element pop parsed index element document
        = items_loop pop parsed index items document"
        by (simp add: process_element_def)
      from items_loop_result [of pop parsed index items document] JObj Some JList
      show ?thesis unfolding eq replaces_def by auto
    next
      case (JObj d')
      with \<open>element = JObj d\<close> Some show ?thesis
        by (simp add: process_element_def items_loop_keys)
    qed (use JObj Some in \<open>auto simp: process_element_def split: option.splits\<close>)
  qed
qed (simp_all add: process_element_def)

lemma process_element_length:
  "length (snd (process_element pop parsed index element document)) = length document"
  using process_element_result [of pop parsed index element document] by auto

lemma process_element_fst_indep:
  "index < length d \<Longrightarrow> index < length d' \<Longrightarrow>
   fst (process_element pop parsed index element d) = fst (process_element pop parsed index element d')"
  using items_loop_fst_indep [of index d d' pop parsed]
  by (simp add: process_element_def split: sum.splits json.splits)

subsection \<open>The loop over the blocks\<close>

text \<open>Length, frame, independence of the exception from the document being updated, and the traversal of a concatenation.\<close>

lemma elements_loop_Cons_None:
  "process_element pop parsed index element document = (None, d') \<Longrightarrow>
   elements_loop pop parsed index (element # snapshot) document =
     elements_loop pop parsed (Suc index) snapshot d'"
  by simp

lemma elements_loop_Cons_Some:
  "process_element pop parsed index element document = (Some err, d') \<Longrightarrow>
   elements_loop pop parsed index (element # snapshot) document = (Some err, d')"
  by simp

declare elements_loop.simps(2) [simp del]

lemma elements_loop_length:
  "length (snd (elements_loop pop parsed index snapshot document)) = length document"
proof (induction snapshot arbitrary: index document)
  case Nil
  then show ?case by simp
next
  case (Cons element snapshot)
  obtain e d' where p: "process_element pop parsed index element document = (e, d')"
    by (cases "process_element pop parsed index element document")
  with process_element_length [of pop parsed index element document]
  have len: "length d' = length document" by simp
  show ?case
  proof (cases e)
    case None
    with p Cons.IH [of "Suc index" d'] len show ?thesis
      by (simp add: elements_loop_Cons_None)
  next
    case (Some err)
    with p len show ?thesis by (simp add: elements_loop_Cons_Some)
  qed
qed

lemma elements_loop_result:
  "j < length document \<Longrightarrow>
   snd (elements_loop pop parsed index snapshot document) ! j = document ! j \<or>
   (index \<le> j \<and> j < index + length snapshot \<and>
    replaces pop parsed (snapshot ! (j - index))
      (snd (elements_loop pop parsed index snapshot document) ! j))"
proof (induction snapshot arbitrary: index document)
  case Nil
  then show ?case by simp
next
  case (Cons element snapshot)
  let ?r = "elements_loop pop parsed index (element # snapshot) document"
  obtain e d' where p: "process_element pop parsed index element document = (e, d')"
    by (cases "process_element pop parsed index element document")
  with process_element_length [of pop parsed index element document]
  have len: "length d' = length document" by simp
  have step: "d' ! j = document ! j \<or> (j = index \<and> replaces pop parsed element (d' ! j))"
    using process_element_result [of pop parsed index element document] Cons.prems p
    by (auto simp: nth_list_update split: if_splits)
  show ?case
  proof (cases e)
    case (Some err)
    with p have "?r = (Some err, d')" by (simp add: elements_loop_Cons_Some)
    with step show ?thesis by auto
  next
    case None
    with p have eq: "?r = elements_loop pop parsed (Suc index) snapshot d'"
      by (simp add: elements_loop_Cons_None)
    from Cons.prems len have "j < length d'" by simp
    from Cons.IH [OF this, of "Suc index"]
    show ?thesis
    proof
      assume "snd (elements_loop pop parsed (Suc index) snapshot d') ! j = d' ! j"
      with step show ?thesis unfolding eq by auto
    next
      assume a: "Suc index \<le> j \<and> j < Suc index + length snapshot \<and>
        replaces pop parsed (snapshot ! (j - Suc index))
          (snd (elements_loop pop parsed (Suc index) snapshot d') ! j)"
      then have "j - index = Suc (j - Suc index)" by arith
      then have "(element # snapshot) ! (j - index) = snapshot ! (j - Suc index)"
        by simp
      with a show ?thesis unfolding eq by auto
    qed
  qed
qed

lemma elements_loop_fst_indep:
  "index + length snapshot \<le> length d \<Longrightarrow> index + length snapshot \<le> length d' \<Longrightarrow>
   fst (elements_loop pop parsed index snapshot d) = fst (elements_loop pop parsed index snapshot d')"
proof (induction snapshot arbitrary: index d d')
  case Nil
  then show ?case by simp
next
  case (Cons element snapshot)
  from Cons.prems have lt: "index < length d" "index < length d'" by auto
  obtain e1 d1 where p1: "process_element pop parsed index element d = (e1, d1)"
    by (cases "process_element pop parsed index element d")
  obtain e2 d2 where p2: "process_element pop parsed index element d' = (e2, d2)"
    by (cases "process_element pop parsed index element d'")
  from process_element_fst_indep [OF lt, of pop parsed element] p1 p2
  have e: "e2 = e1" by simp
  from process_element_length [of pop parsed index element d] p1
  have l1: "length d1 = length d" by simp
  from process_element_length [of pop parsed index element d'] p2
  have l2: "length d2 = length d'" by simp
  show ?case
  proof (cases e1)
    case None
    have "fst (elements_loop pop parsed (Suc index) snapshot d1)
        = fst (elements_loop pop parsed (Suc index) snapshot d2)"
      using Cons.prems l1 l2 by (intro Cons.IH) simp_all
    with None p1 p2 e show ?thesis by (simp add: elements_loop_Cons_None)
  next
    case (Some err)
    with p1 p2 e show ?thesis by (simp add: elements_loop_Cons_Some)
  qed
qed

lemma elements_loop_append_None:
  "elements_loop pop parsed index xs document = (None, d') \<Longrightarrow>
   elements_loop pop parsed index (xs @ ys) document =
     elements_loop pop parsed (index + length xs) ys d'"
proof (induction xs arbitrary: index document)
  case Nil
  then show ?case by simp
next
  case (Cons x xs)
  obtain e d1 where p: "process_element pop parsed index x document = (e, d1)"
    by (cases "process_element pop parsed index x document")
  show ?case
  proof (cases e)
    case None
    with p Cons.prems have "elements_loop pop parsed (Suc index) xs d1 = (None, d')"
      by (simp add: elements_loop_Cons_None)
    from Cons.IH [OF this] None p show ?thesis
      by (simp add: elements_loop_Cons_None)
  next
    case (Some err)
    with p Cons.prems show ?thesis by (simp add: elements_loop_Cons_Some)
  qed
qed

lemma elements_loop_error:
  assumes "element \<in> set snapshot"
    and "\<And>index d. fst (process_element pop parsed index element d) \<noteq> None"
  shows "fst (elements_loop pop parsed index snapshot document) \<noteq> None"
  using assms(1)
proof (induction snapshot arbitrary: index document)
  case Nil
  then show ?case by simp
next
  case (Cons x xs)
  obtain e d1 where p: "process_element pop parsed index x document = (e, d1)"
    by (cases "process_element pop parsed index x document")
  show ?case
  proof (cases e)
    case None
    with p assms(2) [of index document] have "x \<noteq> element" by auto
    with Cons.prems have "element \<in> set xs" by simp
    from Cons.IH [OF this] None p show ?thesis by (simp add: elements_loop_Cons_None)
  next
    case (Some err)
    with p show ?thesis by (simp add: elements_loop_Cons_Some)
  qed
qed

subsection \<open>The whole call\<close>

text \<open>The three ways the call can go, and what happens at block \<open>n\<close> once the blocks before it have raised nothing.\<close>

lemma replace_None:
  "media_metadata self = None \<Longrightarrow> replace_richtext_links pop self document = (None, document)"
  by (simp add: replace_richtext_links_def)

lemma replace_parse_error:
  "media_metadata self = Some mm \<Longrightarrow> parse_media_types mm [] = Inl err \<Longrightarrow>
   replace_richtext_links pop self document = (Some err, document)"
  by (simp add: replace_richtext_links_def)

lemma replace_parsed:
  "media_metadata self = Some mm \<Longrightarrow> parse_media_types mm [] = Inr parsed \<Longrightarrow>
   replace_richtext_links pop self document = elements_loop pop parsed 0 document document"
  by (simp add: replace_richtext_links_def)

lemma replace_cases:
  obtains (absent) "media_metadata self = None"
      "replace_richtext_links pop self document = (None, document)"
  | (unparsed) mm err where "media_metadata self = Some mm" "parse_media_types mm [] = Inl err"
      "replace_richtext_links pop self document = (Some err, document)"
  | (parsed) mm parsed where "media_metadata self = Some mm" "parse_media_types mm [] = Inr parsed"
      "replace_richtext_links pop self document = elements_loop pop parsed 0 document document"
proof (cases "media_metadata self")
  case None
  then show ?thesis using absent replace_None by blast
next
  case (Some mm)
  then show ?thesis
    by (cases "parse_media_types mm []") (use unparsed parsed replace_parse_error replace_parsed in blast)+
qed

lemma replace_length:
  "length (snd (replace_richtext_links pop self document)) = length document"
  by (cases rule: replace_cases [of self pop document]) (simp_all add: elements_loop_length)

lemma replace_result:
  assumes "j < length document"
  shows "snd (replace_richtext_links pop self document) ! j = document ! j \<or>
    (\<exists>mm parsed. media_metadata self = Some mm \<and> parse_media_types mm [] = Inr parsed \<and>
       replaces pop parsed (document ! j) (snd (replace_richtext_links pop self document) ! j))"
proof (cases rule: replace_cases [of self pop document])
  case (parsed mm parsed)
  from elements_loop_result [OF assms, of pop parsed 0 document] parsed
  show ?thesis by auto
qed simp_all

lemma replace_unchanged_index:
  assumes "j < length document"
    and "\<And>mm parsed el. media_metadata self = Some mm \<Longrightarrow> parse_media_types mm [] = Inr parsed \<Longrightarrow>
           \<not> replaces pop parsed (document ! j) el"
  shows "snd (replace_richtext_links pop self document) ! j = document ! j"
  using replace_result [OF assms(1), of pop self] assms(2) by blast

lemma replace_unchanged:
  assumes "\<And>j mm parsed el. j < length document \<Longrightarrow> media_metadata self = Some mm \<Longrightarrow>
           parse_media_types mm [] = Inr parsed \<Longrightarrow> \<not> replaces pop parsed (document ! j) el"
  shows "snd (replace_richtext_links pop self document) = document"
proof (rule nth_equalityI)
  show "length (snd (replace_richtext_links pop self document)) = length document"
    by (rule replace_length)
next
  fix j assume "j < length (snd (replace_richtext_links pop self document))"
  then have j: "j < length document" by (simp add: replace_length)
  show "snd (replace_richtext_links pop self document) ! j = document ! j"
    by (rule replace_unchanged_index [OF j]) (rule assms [OF j])
qed

lemma replace_prefix_parsed:
  assumes "media_metadata self = Some mm"
    and "fst (replace_richtext_links pop self document) = None"
  obtains parsed where "parse_media_types mm [] = Inr parsed"
  using assms by (cases "parse_media_types mm []") (auto simp: replace_parse_error)

lemma replace_reach:
  assumes mm: "media_metadata self = Some mm"
    and parse: "parse_media_types mm [] = Inr parsed"
    and n: "n < length document"
    and pre: "fst (replace_richtext_links pop self (take n document)) = None"
  shows "\<exists>d'. length d' = length document \<and> d' ! n = document ! n \<and>
    replace_richtext_links pop self document =
      elements_loop pop parsed n (document ! n # drop (Suc n) document) d'"
proof -
  let ?pre = "take n document"
  let ?d' = "snd (elements_loop pop parsed 0 ?pre document)"
  from pre mm parse have "fst (elements_loop pop parsed 0 ?pre ?pre) = None"
    by (simp add: replace_parsed)
  moreover have "fst (elements_loop pop parsed 0 ?pre document)
      = fst (elements_loop pop parsed 0 ?pre ?pre)"
    using n by (intro elements_loop_fst_indep) simp_all
  ultimately have run: "elements_loop pop parsed 0 ?pre document = (None, ?d')"
    by (simp add: prod_eq_iff)
  have len: "length ?d' = length document" by (rule elements_loop_length)
  from elements_loop_result [OF n, of pop parsed 0 ?pre] n
  have same: "?d' ! n = document ! n" by auto
  have split: "document = ?pre @ (document ! n # drop (Suc n) document)"
    using n by (simp add: id_take_nth_drop [symmetric])
  have "elements_loop pop parsed 0 (?pre @ (document ! n # drop (Suc n) document)) document
      = elements_loop pop parsed (0 + length ?pre) (document ! n # drop (Suc n) document) ?d'"
    by (rule elements_loop_append_None [OF run])
  with split n have "elements_loop pop parsed 0 document document
      = elements_loop pop parsed n (document ! n # drop (Suc n) document) ?d'"
    by (simp add: min_def)
  with mm parse len same show ?thesis by (auto simp: replace_parsed)
qed


lemma replace_step_ok:
  assumes "media_metadata self = Some mm" "parse_media_types mm [] = Inr parsed"
    "n < length document" "fst (replace_richtext_links pop self (take n document)) = None"
    and ok: "\<And>d. length d = length document \<Longrightarrow> d ! n = document ! n \<Longrightarrow>
       process_element pop parsed n (document ! n) d = (None, d[n := el])"
  shows "snd (replace_richtext_links pop self document) ! n = el"
proof -
  from replace_reach [OF assms(1-4)] obtain d' where
    d': "length d' = length document" "d' ! n = document ! n"
    "replace_richtext_links pop self document =
      elements_loop pop parsed n (document ! n # drop (Suc n) document) d'"
    by blast
  from ok [OF d'(1,2)] d'(3)
  have eq: "replace_richtext_links pop self document =
      elements_loop pop parsed (Suc n) (drop (Suc n) document) (d'[n := el])"
    by (simp add: elements_loop_Cons_None)
  from assms(3) d'(1) have "n < length (d'[n := el])" by simp
  from elements_loop_result [OF this, of pop parsed "Suc n" "drop (Suc n) document"]
  have "snd (elements_loop pop parsed (Suc n) (drop (Suc n) document) (d'[n := el])) ! n
      = d'[n := el] ! n" by auto
  with eq assms(3) d'(1) show ?thesis by simp
qed

lemma replace_step_pass:
  assumes "media_metadata self = Some mm" "parse_media_types mm [] = Inr parsed"
    "n < length document" "fst (replace_richtext_links pop self (take n document)) = None"
    and ok: "\<And>d. fst (process_element pop parsed n (document ! n) d) = None"
  shows "fst (replace_richtext_links pop self (take (Suc n) document)) = None"
proof -
  let ?doc = "take (Suc n) document"
  from assms(3) have n': "n < length ?doc" by simp
  from assms(4) have pre': "fst (replace_richtext_links pop self (take n ?doc)) = None"
    by (simp add: min_def)
  from replace_reach [OF assms(1,2) n' pre'] assms(3) obtain d' where
    d': "replace_richtext_links pop self ?doc = elements_loop pop parsed n [document ! n] d'"
    by auto
  obtain e d'' where p: "process_element pop parsed n (document ! n) d' = (e, d'')"
    by (cases "process_element pop parsed n (document ! n) d'")
  with ok [of d'] have "e = None" by simp
  with p d' show ?thesis by (simp add: elements_loop_Cons_None)
qed

subsection \<open>The requests of the edit operation\<close>

text \<open>Preparing the body issues uploads only.\<close>

lemma upload_all_log:
  "PostEdit data \<notin> set log \<Longrightarrow> PostEdit data \<notin> set (fst (upload_all env media log))"
proof (induction media arbitrary: log)
  case Nil
  then show ?case by simp
next
  case (Cons pm media)
  obtain placeholder m where pm: "pm = (placeholder, m)" by (cases pm)
  from Cons.prems have "PostEdit data \<notin> set (log @ [UploadInlineMedia m])" by simp
  from Cons.IH [OF this] Cons.prems pm show ?case
    by (auto split: sum.splits prod.splits)
qed

lemma prepare_body_log:
  "PostEdit data \<notin> set (fst (prepare_body env body inline_media))"
proof -
  have "PostEdit data \<notin> set log" if "upload_all env media [] = (log, r)" for media log r
    using upload_all_log [of data "[]" env media] that by simp
  then show ?thesis
    by (auto simp: prepare_body_def Let_def simp del: upload_all.simps
        split: option.splits list.splits prod.splits sum.splits)
qed

subsection \<open>Evaluation\<close>

text \<open>The equations that evaluate the reconciler on a concrete input.\<close>

lemmas eval_defs =
  replace_richtext_links_def process_element_def elements_loop.simps items_loop.simps
  link_replacement_def correct_element_def strip_url_def str_split_def
  re_split_dot_slash_def list_getitem_def MEDIA_TYPE_MAPPING_def

section \<open>The claims\<close>

text \<open>
  In the concrete instances below \<open>Min\<close> plays the part of \<^verbatim>\<open>set.pop()\<close>. None of
  them has more than one matching identifier, so the choice has no influence on them.
\<close>

text \<open>
  C1, as stated: for every key \<open>id\<close> of the media map, a block whose only item is a
  link to \<^verbatim>\<open>https://i.redd.it/{id}?amp=1\<close> is replaced by the leaf for \<open>id\<close>. This
  fails for an identifier that contains a dot: the URL is cut at the dot, no token equals
  the identifier, and the block stays as it is.
\<close>

theorem media_link_with_dot_counterexample:
  "replace_richtext_links Min
     \<lparr>fullname = ''t1_a'', validate_on_submit = False,
      media_metadata = Some [(''a.b'', JObj [(''e'', JStr ''Image'')])]\<rparr>
     [JObj [(''e'', JStr ''par''),
            (''c'', JList [JObj [(''e'', JStr ''link''),
                                 (''u'', JStr ''https://i.redd.it/a.b?amp=1''),
                                 (''t'', JStr ''https://i.redd.it/a.b?amp=1'')]])]]
   = (None,
      [JObj [(''e'', JStr ''par''),
            (''c'', JList [JObj [(''e'', JStr ''link''),
                                 (''u'', JStr ''https://i.redd.it/a.b?amp=1''),
                                 (''t'', JStr ''https://i.redd.it/a.b?amp=1'')]])]])"
  by (simp add: eval_defs)

text \<open>
  C1, amended: let every descriptor of the media map (a dict: each key once) have a
  known kind, so that the derived mapping \<open>parsed\<close> exists, and let \<open>mid\<close> be a key of
  the map, with a descriptor of kind \<open>k\<close>, that contains no dot, slash or question mark
  and is the only key among the URL's tokens "i", "redd", "it" and \<open>mid\<close>. Let block
  \<open>n\<close> have as its only item a link with URL \<^verbatim>\<open>https://i.redd.it/{mid}?amp=1\<close> and
  display text \<open>t\<close>, and let the blocks before it raise nothing. Then the call leaves at
  index \<open>n\<close> the leaf whose kind is the table's translation of \<open>k\<close> and whose id is
  \<open>mid\<close>, without a caption when \<open>t\<close> is the URL and with the caption \<open>t\<close> otherwise.
\<close>

theorem media_link_block_replaced:
  assumes pop: "pop_ok pop"
    and mm: "media_metadata self = Some mm"
    and parse: "parse_media_types mm [] = Inr parsed"
    and uniq: "distinct (map fst mm)"
    and desc: "(mid, descriptor) \<in> set mm" "descriptor_kind descriptor = Some k"
    and clean: "CHR ''.'' \<notin> set mid" "CHR ''/'' \<notin> set mid" "CHR ''?'' \<notin> set mid"
    and only: "set (map fst mm) \<inter> {''i'', ''redd'', ''it''} \<subseteq> {mid}"
    and n: "n < length document"
    and el: "document ! n = JObj d"
    and c: "map_of d ''c'' = Some (JList [JObj f])"
    and tag: "map_of f ''e'' = Some (JStr ''link'')"
    and u: "map_of f ''u'' = Some (JStr (''https://i.redd.it/'' @ mid @ ''?amp=1''))"
    and t: "map_of f ''t'' = Some t"
    and pre: "fst (replace_richtext_links pop self (take n document)) = None"
  shows "\<exists>kind. map_of MEDIA_TYPE_MAPPING k = Some kind \<and>
    snd (replace_richtext_links pop self document) ! n =
      (if t = JStr (''https://i.redd.it/'' @ mid @ ''?amp=1'')
       then JObj [(''e'', JStr kind), (''id'', JStr mid)]
       else JObj [(''e'', JStr kind), (''id'', JStr mid), (''c'', t)])"
proof -
  define full where "full = ''https://i.redd.it/'' @ mid @ ''?amp=1''"
  define url where "url = ''i.redd.it/'' @ mid"
  have su: "strip_url full = Inr url"
    unfolding full_def url_def by (rule strip_url_media [OF clean(2,3)])
  have toks: "re_split_dot_slash url = [''i'', ''redd'', ''it'', mid]"
    unfolding url_def by (rule tokens_media [OF clean(1,2)])
  from u have u': "map_of f ''u'' = Some (JStr full)" by (simp add: full_def)
  from parse_media_types_keys [OF parse] have keys: "set (map fst parsed) = set (map fst mm)"
    by simp
  from desc(1) have mid: "mid \<in> set (map fst mm)" by force
  from parse_media_types_kind [OF parse uniq desc] obtain kind where
    table: "map_of MEDIA_TYPE_MAPPING k = Some kind" and kind: "map_of parsed mid = Some kind" .
  define el where "el = (if t = JStr full then JObj [(''e'', JStr kind), (''id'', JStr mid)]
       else JObj [(''e'', JStr kind), (''id'', JStr mid), (''c'', t)])"
  have matched: "set (map fst parsed) \<inter> set (re_split_dot_slash url) = {mid}"
    using keys mid only by (auto simp: toks)
  from pop have popped: "pop {mid} = mid" by (auto simp: pop_ok_def)
  have ce: "correct_element parsed mid (JObj f) (JStr full) = Inr el"
    using kind t by (simp add: correct_element_def el_def)
  have lr: "link_replacement pop parsed (JObj f) = Inr (Some el)"
    using tag u' matched by (simp add: link_replacement_def su popped ce)
  have step: "process_element pop parsed n (document ! n) dd = (None, dd[n := el])"
    if "length dd = length document" for dd
    using that n lr by (simp add: process_element_items [OF el c] items_loop_Cons)
  have "snd (replace_richtext_links pop self document) ! n = el"
    by (rule replace_step_ok [OF mm parse n pre]) (rule step)
  with table show ?thesis unfolding el_def full_def by blast
qed

theorem media_link_block_replaced_witness:
  "snd (replace_richtext_links Min
     \<lparr>fullname = ''t1_a'', validate_on_submit = False,
      media_metadata = Some [(''abc'', JObj [(''e'', JStr ''Image'')])]\<rparr>
     [JObj [(''e'', JStr ''par''),
            (''c'', JList [JObj [(''e'', JStr ''link''),
                                 (''u'', JStr ''https://i.redd.it/abc?amp=1''),
                                 (''t'', JStr ''caption text'')]])]]) ! 0
   = JObj [(''e'', JStr ''img''), (''id'', JStr ''abc''), (''c'', JStr ''caption text'')]"
proof -
  let ?mm = "[(''abc'', JObj [(''e'', JStr ''Image'')])]"
  let ?self = "\<lparr>fullname = ''t1_a'', validate_on_submit = False, media_metadata = Some ?mm\<rparr>"
  let ?f = "[(''e'', JStr ''link''), (''u'', JStr ''https://i.redd.it/abc?amp=1''),
             (''t'', JStr ''caption text'')]"
  let ?d = "[(''e'', JStr ''par''), (''c'', JList [JObj ?f])]"
  let ?doc = "[JObj ?d]"
  have pre: "fst (replace_richtext_links Min ?self (take 0 ?doc)) = None"
    by (simp add: eval_defs)
  have "\<exists>kind. map_of MEDIA_TYPE_MAPPING ''Image'' = Some kind \<and>
    snd (replace_richtext_links Min ?self ?doc) ! 0 =
      (if JStr ''caption text'' = JStr (''https://i.redd.it/'' @ ''abc'' @ ''?amp=1'')
       then JObj [(''e'', JStr kind), (''id'', JStr ''abc'')]
       else JObj [(''e'', JStr kind), (''id'', JStr ''abc''), (''c'', JStr ''caption text'')])"
    by (rule media_link_block_replaced [OF pop_ok_Min, where mm = ?mm and d = ?d and f = ?f
          and descriptor = "JObj [(''e'', JStr ''Image'')]"])
       (use pre in \<open>simp_all add: MEDIA_TYPE_MAPPING_def descriptor_kind_def\<close>)
  then show ?thesis by (simp add: MEDIA_TYPE_MAPPING_def)
qed

text \<open>
  C2: the table sends "Image" to "img", "RedditVideo" to "video" and "AnimatedImage" to
  "gif", and any other kind raises \<^verbatim>\<open>KeyError\<close> with that kind. When some
  descriptor of the media map has a kind outside the table, the call raises while the
  derived mapping is built, and the document is returned exactly as it was passed. When
  moreover every descriptor carries a string as its kind, the exception is the
  \<^verbatim>\<open>KeyError\<close> of a kind outside the table.
\<close>

theorem unknown_media_kind_raises:
  assumes "media_metadata self = Some mm"
    and "\<exists>(media_id, value) \<in> set mm. descriptor_kind value \<notin> Some ` known_kinds"
  shows "media_type_lookup (JStr ''Image'') = Inr ''img'' \<and>
    media_type_lookup (JStr ''RedditVideo'') = Inr ''video'' \<and>
    media_type_lookup (JStr ''AnimatedImage'') = Inr ''gif'' \<and>
    (\<forall>k. k \<notin> known_kinds \<longrightarrow> media_type_lookup (JStr k) = Inl (KeyError (JStr k))) \<and>
    (\<exists>err. replace_richtext_links pop self document = (Some err, document)) \<and>
    ((\<forall>(media_id, value) \<in> set mm. descriptor_kind value \<noteq> None) \<longrightarrow>
     (\<exists>k. k \<notin> known_kinds \<and>
        replace_richtext_links pop self document = (Some (KeyError (JStr k)), document)))"
proof -
  from parse_media_types_fails [OF assms(2), of "[]"] assms(1)
  have general: "\<exists>err. replace_richtext_links pop self document = (Some err, document)"
    by (auto simp: replace_parse_error)
  have typed: "\<exists>k. k \<notin> known_kinds \<and>
        replace_richtext_links pop self document = (Some (KeyError (JStr k)), document)"
    if all: "\<forall>(media_id, value) \<in> set mm. descriptor_kind value \<noteq> None"
  proof -
    from assms(2) all
    have "\<exists>(media_id, value) \<in> set mm. \<exists>k. descriptor_kind value = Some k \<and> k \<notin> known_kinds"
      by fastforce
    from parse_media_types_unknown [OF all this, of "[]"] obtain k where
      "k \<notin> known_kinds" "parse_media_types mm [] = Inl (KeyError (JStr k))" by blast
    with assms(1) show ?thesis by (auto simp: replace_parse_error)
  qed
  from general typed show ?thesis
    by (simp add: MEDIA_TYPE_MAPPING_def known_kinds_def)
qed

theorem unknown_media_kind_raises_witness:
  "\<exists>k. k \<notin> known_kinds \<and>
     replace_richtext_links Min
       \<lparr>fullname = ''t1_a'', validate_on_submit = False,
        media_metadata = Some [(''abc'', JObj [(''e'', JStr ''Image'')]),
                               (''xyz'', JObj [(''e'', JStr ''Sticker'')])]\<rparr>
       [JObj [(''e'', JStr ''par''), (''c'', JList [])]]
     = (Some (KeyError (JStr k)), [JObj [(''e'', JStr ''par''), (''c'', JList [])]])"
proof -
  let ?mm = "[(''abc'', JObj [(''e'', JStr ''Image'')]), (''xyz'', JObj [(''e'', JStr ''Sticker'')])]"
  let ?self = "\<lparr>fullname = ''t1_a'', validate_on_submit = False, media_metadata = Some ?mm\<rparr>"
  have h1: "media_metadata ?self = Some ?mm" by simp
  have h2: "\<exists>(media_id, value) \<in> set ?mm. descriptor_kind value \<notin> Some ` known_kinds"
    by (simp add: descriptor_kind_def known_kinds_def)
  have h3: "\<forall>(media_id, value) \<in> set ?mm. descriptor_kind value \<noteq> None"
    by (simp add: descriptor_kind_def)
  from unknown_media_kind_raises [OF h1 h2] h3 show ?thesis by blast
qed

text \<open>
  C3, as stated: a block that contains a link item whose URL yields no token among the
  keys of the media map is left unchanged. This fails when the block has a second link
  item that does match: the whole block is replaced for that one.
\<close>

theorem unmatched_link_beside_matched_counterexample:
  "replace_richtext_links Min
     \<lparr>fullname = ''t1_a'', validate_on_submit = False,
      media_metadata = Some [(''abc'', JObj [(''e'', JStr ''Image'')])]\<rparr>
     [JObj [(''e'', JStr ''par''),
            (''c'', JList [JObj [(''e'', JStr ''link''),
                                 (''u'', JStr ''https://example.com/pic.png''),
                                 (''t'', JStr ''a site'')],
                           JObj [(''e'', JStr ''link''),
                                 (''u'', JStr ''https://i.redd.it/abc.png''),
                                 (''t'', JStr ''a picture'')]])]]
   = (None, [JObj [(''e'', JStr ''img''), (''id'', JStr ''abc''), (''c'', JStr ''a picture'')]])"
  by (simp add: eval_defs)

text \<open>
  C3, amended: let block \<open>n\<close> have a list of items, each of them a dict, in which every
  link item has a URL with the \<^verbatim>\<open>https://\<close> scheme whose tokens (after scheme
  removal, query-string stripping and the split on dots and slashes) contain no key of
  the media map. Then the call leaves block \<open>n\<close> as it is, and the block raises nothing:
  when the blocks before it raise nothing, neither do the blocks up to and including it.
  A URL without that scheme is not covered here.
\<close>

theorem unmatched_links_leave_block:
  assumes mm: "media_metadata self = Some mm"
    and n: "n < length document"
    and el: "document ! n = JObj d"
    and c: "map_of d ''c'' = Some (JList items)"
    and items: "\<forall>item \<in> set items. (\<exists>f. item = JObj f) \<and>
      (is_link item \<longrightarrow> (\<exists>u url. py_getitem item ''u'' = Inr (JStr u) \<and> strip_url u = Inr url \<and>
           set (re_split_dot_slash url) \<inter> set (map fst mm) = {}))"
  shows "snd (replace_richtext_links pop self document) ! n = document ! n \<and>
    (fst (replace_richtext_links pop self (take n document)) = None \<longrightarrow>
     fst (replace_richtext_links pop self (take (Suc n) document)) = None)"
proof (intro conjI impI)
  have none: "\<forall>item \<in> set items. link_replacement pop parsed item = Inr None"
    if "parse_media_types mm [] = Inr parsed" for parsed
  proof
    fix item assume i: "item \<in> set items"
    from parse_media_types_keys [OF that] have keys: "set (map fst parsed) = set (map fst mm)" by simp
    from items i obtain f where f: "item = JObj f" by blast
    from items i keys have "is_link item \<longrightarrow> (\<exists>u url. py_getitem item ''u'' = Inr (JStr u) \<and>
        strip_url u = Inr url \<and> set (re_split_dot_slash url) \<inter> set (map fst parsed) = {})"
      by simp
    with f show "link_replacement pop parsed item = Inr None"
      by (rule link_replacement_no_match)
  qed
  show "snd (replace_richtext_links pop self document) ! n = document ! n"
  proof (rule replace_unchanged_index [OF n])
    fix mm' parsed el'
    assume "media_metadata self = Some mm'" "parse_media_types mm' [] = Inr parsed"
    with mm have "parse_media_types mm [] = Inr parsed" by simp
    from none [OF this] el c show "\<not> replaces pop parsed (document ! n) el'"
      by (auto simp: replaces_def)
  qed
  assume pre: "fst (replace_richtext_links pop self (take n document)) = None"
  from replace_prefix_parsed [OF mm pre] obtain parsed where
    parse: "parse_media_types mm [] = Inr parsed" .
  show "fst (replace_richtext_links pop self (take (Suc n) document)) = None"
    by (rule replace_step_pass [OF mm parse n pre])
       (simp add: process_element_items [OF el c] items_loop_all_None [OF none [OF parse]])
qed

theorem unmatched_links_leave_block_witness:
  "snd (replace_richtext_links Min
     \<lparr>fullname = ''t1_a'', validate_on_submit = False,
      media_metadata = Some [(''abc'', JObj [(''e'', JStr ''Image'')])]\<rparr>
     [JObj [(''e'', JStr ''par''),
            (''c'', JList [JObj [(''e'', JStr ''text''), (''t'', JStr ''see '')],
                           JObj [(''e'', JStr ''link''),
                                 (''u'', JStr ''https://example.com/pic.png?w=1''),
                                 (''t'', JStr ''this'')]])]]) ! 0
   = JObj [(''e'', JStr ''par''),
            (''c'', JList [JObj [(''e'', JStr ''text''), (''t'', JStr ''see '')],
                           JObj [(''e'', JStr ''link''),
                                 (''u'', JStr ''https://example.com/pic.png?w=1''),
                                 (''t'', JStr ''this'')]])] \<and>
   fst (replace_richtext_links Min
     \<lparr>fullname = ''t1_a'', validate_on_submit = False,
      media_metadata = Some [(''abc'', JObj [(''e'', JStr ''Image'')])]\<rparr>
     [JObj [(''e'', JStr ''par''),
            (''c'', JList [JObj [(''e'', JStr ''text''), (''t'', JStr ''see '')],
                           JObj [(''e'', JStr ''link''),
                                 (''u'', JStr ''https://example.com/pic.png?w=1''),
                                 (''t'', JStr ''this'')]])]]) = None"
proof -
  let ?mm = "[(''abc'', JObj [(''e'', JStr ''Image'')])]"
  let ?self = "\<lparr>fullname = ''t1_a'', validate_on_submit = False, media_metadata = Some ?mm\<rparr>"
  let ?items = "[JObj [(''e'', JStr ''text''), (''t'', JStr ''see '')],
                 JObj [(''e'', JStr ''link''), (''u'', JStr ''https://example.com/pic.png?w=1''),
                       (''t'', JStr ''this'')]]"
  let ?d = "[(''e'', JStr ''par''), (''c'', JList ?items)]"
  let ?doc = "[JObj ?d]"
  have su: "strip_url ''https://example.com/pic.png?w=1'' = Inr ''example.com/pic.png''"
    by (simp add: strip_url_def str_split_def list_getitem_def)
  have items: "\<forall>item \<in> set ?items. (\<exists>f. item = JObj f) \<and>
      (is_link item \<longrightarrow> (\<exists>u url. py_getitem item ''u'' = Inr (JStr u) \<and> strip_url u = Inr url \<and>
           set (re_split_dot_slash url) \<inter> set (map fst ?mm) = {}))"
    by (simp add: is_link_def su re_split_dot_slash_def)
  have pre: "fst (replace_richtext_links Min ?self (take 0 ?doc)) = None"
    by (simp add: eval_defs)
  have "snd (replace_richtext_links Min ?self ?doc) ! 0 = ?doc ! 0 \<and>
    (fst (replace_richtext_links Min ?self (take 0 ?doc)) = None \<longrightarrow>
     fst (replace_richtext_links Min ?self (take (Suc 0) ?doc)) = None)"
    by (rule unmatched_links_leave_block [where mm = ?mm and d = ?d and items = ?items])
       (use items in simp_all)
  with pre show ?thesis by simp
qed





text \<open>
  C6, as stated: without a media-metadata attribute, or with an empty media map, the call
  changes no document and raises nothing. The second half fails: with an empty map the
  traversal still runs, and its schema assertion fires on a block whose content is a
  string and whose kind is none of gif, img, video.
\<close>

theorem empty_metadata_can_fail_counterexample:
  "replace_richtext_links Min
     \<lparr>fullname = ''t1_a'', validate_on_submit = False, media_metadata = Some []\<rparr>
     [JObj [(''e'', JStr ''par''), (''c'', JStr ''x'')]]
   = (Some AssertionError, [JObj [(''e'', JStr ''par''), (''c'', JStr ''x'')]])"
  by (simp add: replace_richtext_links_def process_element_def elements_loop.simps)

text \<open>
  C6, amended: without a media-metadata attribute the call returns normally and leaves
  every document as it is; with an empty media map the call never changes the document,
  whether it returns or raises.
\<close>

theorem absent_or_empty_metadata_keeps_document:
  "replace_richtext_links pop (self\<lparr>media_metadata := None\<rparr>) document = (None, document) \<and>
   snd (replace_richtext_links pop (self\<lparr>media_metadata := Some []\<rparr>) document) = document"
proof
  show "replace_richtext_links pop (self\<lparr>media_metadata := None\<rparr>) document = (None, document)"
    by (simp add: replace_None)
next
  show "snd (replace_richtext_links pop (self\<lparr>media_metadata := Some []\<rparr>) document) = document"
  proof (rule replace_unchanged)
    fix j mm parsed el
    assume "media_metadata (self\<lparr>media_metadata := Some []\<rparr>) = Some mm"
      "parse_media_types mm [] = Inr parsed"
    then have "parsed = []" by auto
    then show "\<not> replaces pop parsed (document ! j) el"
      using link_replacement_SomeD [of pop parsed _ el] by (auto simp: replaces_def)
  qed
qed

text \<open>
  C7: when no block of the document has an inline item tagged "link", the call leaves
  the document as it is: the same blocks, each unmodified, in the same places. This
  holds for every media map and also when the call raises.
\<close>

theorem no_link_items_document_unchanged:
  assumes "\<forall>element \<in> set document. \<forall>item \<in> set (element_items element). \<not> is_link item"
  shows "snd (replace_richtext_links pop self document) = document"
proof (rule replace_unchanged)
  fix j mm parsed el
  assume j: "j < length document"
  show "\<not> replaces pop parsed (document ! j) el"
  proof
    assume "replaces pop parsed (document ! j) el"
    from replaces_element_items [OF this] obtain item where
      "item \<in> set (element_items (document ! j))" "link_replacement pop parsed item = Inr (Some el)"
      by blast
    with link_replacement_SomeD [of pop parsed item el] assms j show False by auto
  qed
qed

theorem no_link_items_document_unchanged_witness:
  "snd (replace_richtext_links Min
     \<lparr>fullname = ''t1_a'', validate_on_submit = False,
      media_metadata = Some [(''abc'', JObj [(''e'', JStr ''Image'')])]\<rparr>
     [JObj [(''e'', JStr ''par''),
            (''c'', JList [JObj [(''e'', JStr ''text''), (''t'', JStr ''hello'')]])]])
   = [JObj [(''e'', JStr ''par''),
            (''c'', JList [JObj [(''e'', JStr ''text''), (''t'', JStr ''hello'')]])]]"
  by (rule no_link_items_document_unchanged) (simp add: element_items_def is_link_def)

text \<open>
  C8: the call only assigns to entries of the block sequence by index. The sequence keeps
  its length, and every index holds the block it held before unless that block has a
  link item whose URL tokens meet the keys of the media map; so nothing is moved, and
  every block not replaced through a matched link is the original one.
\<close>

theorem replace_frame:
  "length (snd (replace_richtext_links pop self document)) = length document \<and>
   (\<forall>j < length document.
      snd (replace_richtext_links pop self document) ! j = document ! j \<or>
      (\<exists>mm. media_metadata self = Some mm \<and>
         (\<exists>item \<in> set (element_items (document ! j)).
            is_link item \<and> set (map fst mm) \<inter> set (link_tokens item) \<noteq> {})))"
proof (intro conjI allI impI)
  show "length (snd (replace_richtext_links pop self document)) = length document"
    by (rule replace_length)
next
  fix j assume j: "j < length document"
  from replace_result [OF j, of pop self]
  show "snd (replace_richtext_links pop self document) ! j = document ! j \<or>
      (\<exists>mm. media_metadata self = Some mm \<and>
         (\<exists>item \<in> set (element_items (document ! j)).
            is_link item \<and> set (map fst mm) \<inter> set (link_tokens item) \<noteq> {}))"
  proof
    assume "\<exists>mm parsed. media_metadata self = Some mm \<and> parse_media_types mm [] = Inr parsed \<and>
       replaces pop parsed (document ! j) (snd (replace_richtext_links pop self document) ! j)"
    then obtain mm parsed where mm: "media_metadata self = Some mm"
      and parse: "parse_media_types mm [] = Inr parsed"
      and r: "replaces pop parsed (document ! j) (snd (replace_richtext_links pop self document) ! j)"
      by blast
    from replaces_element_items [OF r] obtain item where
      item: "item \<in> set (element_items (document ! j))"
      "link_replacement pop parsed item = Inr (Some (snd (replace_richtext_links pop self document) ! j))"
      by blast
    from parse_media_types_keys [OF parse] have keys: "set (map fst parsed) = set (map fst mm)"
      by simp
    from link_replacement_SomeD [OF item(2)] keys item(1) mm show ?thesis by auto
  qed simp
qed

theorem replace_frame_witness:
  "snd (replace_richtext_links Min
     \<lparr>fullname = ''t1_a'', validate_on_submit = False,
      media_metadata = Some [(''abc'', JObj [(''e'', JStr ''Image'')])]\<rparr>
     [JObj [(''e'', JStr ''par''),
            (''c'', JList [JObj [(''e'', JStr ''text''), (''t'', JStr ''hello'')]])],
      JObj [(''e'', JStr ''par''),
            (''c'', JList [JObj [(''e'', JStr ''link''), (''u'', JStr ''https://i.redd.it/abc.png''),
                                 (''t'', JStr ''a picture'')]])]]) ! 0
   = JObj [(''e'', JStr ''par''),
            (''c'', JList [JObj [(''e'', JStr ''text''), (''t'', JStr ''hello'')]])]"
proof -
  let ?self = "\<lparr>fullname = ''t1_a'', validate_on_submit = False,
      media_metadata = Some [(''abc'', JObj [(''e'', JStr ''Image'')])]\<rparr>"
  let ?doc = "[JObj [(''e'', JStr ''par''),
            (''c'', JList [JObj [(''e'', JStr ''text''), (''t'', JStr ''hello'')]])],
      JObj [(''e'', JStr ''par''),
            (''c'', JList [JObj [(''e'', JStr ''link''), (''u'', JStr ''https://i.redd.it/abc.png''),
                                 (''t'', JStr ''a picture'')]])]]"
  have "0 < length ?doc" by simp
  with replace_frame [of Min ?self ?doc]
  have "snd (replace_richtext_links Min ?self ?doc) ! 0 = ?doc ! 0 \<or>
      (\<exists>mm. media_metadata ?self = Some mm \<and>
         (\<exists>item \<in> set (element_items (?doc ! 0)).
            is_link item \<and> set (map fst mm) \<inter> set (link_tokens item) \<noteq> {}))"
    by blast
  then show ?thesis by (simp add: element_items_def is_link_def)
qed

text \<open>
  C9: in \<^verbatim>\<open>edit\<close> with \<^verbatim>\<open>preserve_inline_media\<close>, when the body is sent as rich text
  and the reconciler raises on the converted document, \<^verbatim>\<open>edit\<close> ends with that
  exception and the edit-submission request is not among the requests it has issued.
\<close>

theorem reconciler_failure_prevents_post:
  assumes "prepare_body env body inline_media = (log, Inr (body', True))"
    and "convert_to_fancypants env body' = Inr document"
    and "fst (replace_richtext_links pop self document) = Some err"
  shows "snd (edit pop env self body True inline_media) = Inl err \<and>
    (\<forall>data. PostEdit data \<notin> set (fst (edit pop env self body True inline_media)))"
proof -
  obtain document' where r: "replace_richtext_links pop self document = (Some err, document')"
    using assms(3) by (cases "replace_richtext_links pop self document") auto
  from assms(1,2) r have e: "edit pop env self body True inline_media
      = (log @ [ConvertToFancypants body'], Inl err)"
    by (simp add: edit_def)
  from prepare_body_log [of _ env body inline_media] assms(1)
  have "\<forall>data. PostEdit data \<notin> set log" by simp
  with e show ?thesis by simp
qed

theorem reconciler_failure_prevents_post_witness:
  "snd (edit Min
     \<lparr>pattern_search = (\<lambda>body. False),
      upload_inline_media = (\<lambda>media. Inr ''![img](k3j2h1)''),
      format_body = (\<lambda>body uploads. Inr (concat (map snd uploads))),
      convert_to_fancypants = (\<lambda>body. Inr [JObj [(''e'', JStr ''par''), (''c'', JStr body)]]),
      dumps = (\<lambda>document. ''{}''),
      post_edit = (\<lambda>data. Inr JNull)\<rparr>
     \<lparr>fullname = ''t1_a'', validate_on_submit = False, media_metadata = Some []\<rparr>
     ''{pic}'' True (Some [(''pic'', ''picture.png'')])) = Inl AssertionError \<and>
   (\<forall>data. PostEdit data \<notin> set (fst (edit Min
     \<lparr>pattern_search = (\<lambda>body. False),
      upload_inline_media = (\<lambda>media. Inr ''![img](k3j2h1)''),
      format_body = (\<lambda>body uploads. Inr (concat (map snd uploads))),
      convert_to_fancypants = (\<lambda>body. Inr [JObj [(''e'', JStr ''par''), (''c'', JStr body)]]),
      dumps = (\<lambda>document. ''{}''),
      post_edit = (\<lambda>data. Inr JNull)\<rparr>
     \<lparr>fullname = ''t1_a'', validate_on_submit = False, media_metadata = Some []\<rparr>
     ''{pic}'' True (Some [(''pic'', ''picture.png'')]))))"
proof -
  let ?env = "\<lparr>pattern_search = (\<lambda>body. False),
      upload_inline_media = (\<lambda>media. Inr ''![img](k3j2h1)''),
      format_body = (\<lambda>body uploads. Inr (concat (map snd uploads))),
      convert_to_fancypants = (\<lambda>body. Inr [JObj [(''e'', JStr ''par''), (''c'', JStr body)]]),
      dumps = (\<lambda>document. ''{}''),
      post_edit = (\<lambda>data. Inr JNull)\<rparr>"
  let ?self = "\<lparr>fullname = ''t1_a'', validate_on_submit = False, media_metadata = Some []\<rparr>"
  let ?doc = "[JObj [(''e'', JStr ''par''), (''c'', JStr ''![img](k3j2h1)'')]]"
  have h1: "prepare_body ?env ''{pic}'' (Some [(''pic'', ''picture.png'')])
      = ([UploadInlineMedia ''picture.png''], Inr (''![img](k3j2h1)'', True))"
    by (simp add: prepare_body_def)
  have h2: "convert_to_fancypants ?env ''![img](k3j2h1)'' = Inr ?doc" by simp
  have h3: "fst (replace_richtext_links Min ?self ?doc) = Some AssertionError"
    by (simp add: eval_defs)
  from reconciler_failure_prevents_post [OF h1 h2 h3] show ?thesis .
qed

text \<open>
  C10: when the object has media metadata and some block has, among its items, a link
  whose URL does not contain \<^verbatim>\<open>https://\<close>, the call raises: the split at the scheme
  has one piece only, so taking its second piece is an \<^verbatim>\<open>IndexError\<close>, raised as soon
  as the traversal reaches the item. (Another exception is raised when something before
  the item fails first.) This holds for every media map, the empty one included.
\<close>

theorem link_without_scheme_raises:
  assumes "media_metadata self = Some mm"
    and "element \<in> set document"
    and "item \<in> set (element_items element)"
    and "is_link item"
    and "py_getitem item ''u'' = Inr (JStr u)"
    and "\<not> sublist ''https://'' u"
  shows "fst (replace_richtext_links pop self document) \<noteq> None \<and>
    strip_url u = Inl IndexError \<and>
    (\<forall>parsed. link_replacement pop parsed item = Inl IndexError)"
proof (intro conjI allI)
  show "link_replacement pop parsed item = Inl IndexError" for parsed
    by (rule link_replacement_no_scheme [OF assms(4-6)])
  from assms(6) have "str_split ''https://'' u = [u]"
    by (simp add: str_split_def split_loop_no_sep)
  then show "strip_url u = Inl IndexError"
    by (simp add: strip_url_def list_getitem_def)
  from element_itemsD [OF assms(3)] obtain d items where
    e: "element = JObj d" "map_of d ''c'' = Some (JList items)" "item \<in> set items" by blast
  have step: "fst (process_element pop parsed index element dd) \<noteq> None" for parsed index dd
    unfolding process_element_items [OF e(1,2)]
    by (rule items_loop_error [OF e(3) link_replacement_no_scheme [OF assms(4-6)]])
  show "fst (replace_richtext_links pop self document) \<noteq> None"
  proof (cases "parse_media_types mm []")
    case (Inl err)
    with assms(1) show ?thesis by (simp add: replace_parse_error)
  next
    case (Inr parsed)
    with assms(1) elements_loop_error [OF assms(2), of pop parsed 0 document] step
    show ?thesis by (simp add: replace_parsed)
  qed
qed

theorem link_without_scheme_raises_witness:
  "fst (replace_richtext_links Min
     \<lparr>fullname = ''t1_a'', validate_on_submit = False,
      media_metadata = Some [(''abc'', JObj [(''e'', JStr ''Image'')])]\<rparr>
     [JObj [(''e'', JStr ''par''),
            (''c'', JList [JObj [(''e'', JStr ''link''),
                                 (''u'', JStr ''http://example.com/''),
                                 (''t'', JStr ''a site'')]])]]) \<noteq> None \<and>
   strip_url ''http://example.com/'' = Inl IndexError"
proof -
  let ?mm = "[(''abc'', JObj [(''e'', JStr ''Image'')])]"
  let ?self = "\<lparr>fullname = ''t1_a'', validate_on_submit = False, media_metadata = Some ?mm\<rparr>"
  let ?item = "JObj [(''e'', JStr ''link''), (''u'', JStr ''http://example.com/''),
                     (''t'', JStr ''a site'')]"
  let ?element = "JObj [(''e'', JStr ''par''), (''c'', JList [?item])]"
  have h1: "media_metadata ?self = Some ?mm" by simp
  have h2: "?element \<in> set [?element]" by simp
  have h3: "?item \<in> set (element_items ?element)" by (simp add: element_items_def)
  have h4: "is_link ?item" by (simp add: is_link_def)
  have h5: "py_getitem ?item ''u'' = Inr (JStr ''http://example.com/'')" by simp
  have h6: "\<not> sublist ''https://'' ''http://example.com/''"
    by (simp add: sublist_Cons_right)
  from link_without_scheme_raises [OF h1 h2 h3 h4 h5 h6, of Min] show ?thesis by blast
qed

end
